theory Spec2Isabelle
  imports Main
begin

section \<open>The gateway (session broker) of Backend/gateway.js\<close>

text \<open>
  The gateway keeps four module-level structures: the map \<open>connections\<close>, the map
  \<open>sessions\<close>, and the arrays \<open>waitingClients\<close> and \<open>availableWorkers\<close>. The arrays and
  the session objects hold socket objects; a socket is identified by its \<open>id\<close>, which is
  also the key of \<open>connections\<close>, so a socket is modelled by its id.

  JavaScript runs every handler to completion, so a handler is a function from the state
  to the new state together with the list of messages it emitted, in order.
\<close>

type_synonym socket_id = string
type_synonym session_id = string
type_synonym payload = string

datatype conn_type = Worker | Client

datatype conn_status = Idle | Busy

text \<open>
  The field \<open>sessionId\<close> of a connection object is missing after registration
  (\<open>undefined\<close>), a string after a pairing, and \<open>null\<close> after the reclaim timer.
\<close>

datatype session_ref = Undefined | Null | Token session_id

record connection =
  ctype :: conn_type
  status :: "conn_status option"
  sessionId :: session_ref

record session =
  clientSocket :: socket_id
  workerSocket :: socket_id

text \<open>The messages the gateway emits, each to one socket.\<close>

datatype message =
    Status string
  | StartSession "payload option"
  | SessionStarted session_id
  | SignalMsg payload
  | InputEvent payload
  | Frame payload
  | WorkerDisconnected
  | StopSession

type_synonym emission = "socket_id \<times> message"

text \<open>
  \<open>timers\<close> holds the callbacks scheduled by \<open>setTimeout(..., 1000)\<close> that have not fired
  yet, each represented by the worker socket its closure captured. All have the same
  delay, so they fire in the order they were scheduled.
\<close>

record gateway =
  connections :: "socket_id \<rightharpoonup> connection"
  sessions :: "session_id \<rightharpoonup> session"
  waitingClients :: "socket_id list"
  availableWorkers :: "socket_id list"
  timers :: "socket_id list"

definition init :: gateway where
  "init = \<lparr>connections = Map.empty, sessions = Map.empty, waitingClients = [],
           availableWorkers = [], timers = []\<rparr>"

text \<open>
  The test \<open>conn.sessionId\<close> in a condition: \<open>undefined\<close>, \<open>null\<close> and the empty string
  are falsy. The result is the string to look up in \<open>sessions\<close>.
\<close>

fun session_token :: "session_ref \<Rightarrow> session_id option" where
  "session_token Undefined = None"
| "session_token Null = None"
| "session_token (Token t) = (if t = [] then None else Some t)"

text \<open>The object literals \<open>{ type: 'client' }\<close> and \<open>{ type: 'worker', status: 'idle' }\<close>.\<close>

definition new_client :: connection where
  "new_client = \<lparr>ctype = Client, status = None, sessionId = Undefined\<rparr>"

definition new_worker :: connection where
  "new_worker = \<lparr>ctype = Worker, status = Some Idle, sessionId = Undefined\<rparr>"

text \<open>
  An assignment \<open>connections.get(id).field = v\<close>. It is only executed where the entry has
  just been checked to exist.
\<close>

definition assign :: "(socket_id \<rightharpoonup> connection) \<Rightarrow> socket_id \<Rightarrow> (connection \<Rightarrow> connection)
    \<Rightarrow> (socket_id \<rightharpoonup> connection)" where
  "assign conns k f = (case conns k of None \<Rightarrow> conns | Some c \<Rightarrow> conns(k \<mapsto> f c))"

text \<open>
  \<open>matchClientWithWorker(clientSocket, workerSocket, config)\<close>. Both callers pass socket
  objects, so the first guard never returns. The last argument is the string that
  \<open>Math.random().toString(36).substring(7)\<close> yields in this call.
\<close>

definition matchClientWithWorker ::
    "gateway \<Rightarrow> socket_id \<Rightarrow> socket_id \<Rightarrow> payload option \<Rightarrow> session_id
      \<Rightarrow> gateway \<times> emission list" where
  "matchClientWithWorker g client worker config sid =
     (let conns1 = (if connections g client = None
                    then (connections g)(client \<mapsto> new_client)
                    else connections g)
      in if conns1 worker = None then (g\<lparr>connections := conns1\<rparr>, [])
         else
           let conns2 = assign conns1 client (\<lambda>c. c\<lparr>sessionId := Token sid\<rparr>);
               conns3 = assign conns2 worker (\<lambda>c. c\<lparr>sessionId := Token sid\<rparr>);
               conns4 = assign conns3 worker (\<lambda>c. c\<lparr>status := Some Busy\<rparr>)
           in (g\<lparr>connections := conns4,
                 sessions := (sessions g)(sid \<mapsto>
                    \<lparr>clientSocket = client, workerSocket = worker\<rparr>)\<rparr>,
               [(worker, StartSession config), (client, SessionStarted sid)]))"

text \<open>
  The \<open>while\<close> loop of the \<open>request-session\<close> handler: it shifts candidates off the head
  of \<open>availableWorkers\<close> until one is registered with status \<open>idle\<close>. The result is the
  chosen worker (or none) and what is left of the array.
\<close>

fun takeProvider :: "(socket_id \<rightharpoonup> connection) \<Rightarrow> socket_id list
    \<Rightarrow> socket_id option \<times> socket_id list" where
  "takeProvider conns [] = (None, [])"
| "takeProvider conns (candidate # rest) =
     (case conns candidate of
        None \<Rightarrow> takeProvider conns rest
      | Some conn \<Rightarrow>
          if status conn = Some Idle then (Some candidate, rest)
          else takeProvider conns rest)"

subsection \<open>The handlers\<close>

definition register_worker :: "gateway \<Rightarrow> socket_id \<Rightarrow> session_id \<Rightarrow> gateway \<times> emission list" where
  "register_worker g socket sid =
     (let g1 = g\<lparr>connections := (connections g)(socket \<mapsto> new_worker)\<rparr>
      in case waitingClients g1 of
           client # rest \<Rightarrow>
             matchClientWithWorker (g1\<lparr>waitingClients := rest\<rparr>) client socket None sid
         | [] \<Rightarrow> (g1\<lparr>availableWorkers := availableWorkers g1 @ [socket]\<rparr>, []))"

definition register_client :: "gateway \<Rightarrow> socket_id \<Rightarrow> gateway \<times> emission list" where
  "register_client g socket =
     (if connections g socket = None
      then (g\<lparr>connections := (connections g)(socket \<mapsto> new_client)\<rparr>, [])
      else (g, []))"

definition request_session ::
    "gateway \<Rightarrow> socket_id \<Rightarrow> payload option \<Rightarrow> session_id \<Rightarrow> gateway \<times> emission list" where
  "request_session g socket config sid =
     (let g1 = (if connections g socket = None
                then g\<lparr>connections := (connections g)(socket \<mapsto> new_client)\<rparr>
                else g)
      in case takeProvider (connections g1) (availableWorkers g1) of
           (Some worker, pool) \<Rightarrow>
             matchClientWithWorker (g1\<lparr>availableWorkers := pool\<rparr>) socket worker config sid
         | (None, pool) \<Rightarrow>
             (g1\<lparr>availableWorkers := pool, waitingClients := waitingClients g1 @ [socket]\<rparr>,
              [(socket, Status ''Waiting for available browser engine...'')]))"

definition signal :: "gateway \<Rightarrow> socket_id \<Rightarrow> payload \<Rightarrow> gateway \<times> emission list" where
  "signal g socket data =
     (case connections g socket of
        None \<Rightarrow> (g, [])
      | Some conn \<Rightarrow>
          (case session_token (sessionId conn) of
             None \<Rightarrow> (g, [])
           | Some sid \<Rightarrow>
               (case sessions g sid of
                  None \<Rightarrow> (g, [])
                | Some s \<Rightarrow>
                    (g, [(if ctype conn = Client then workerSocket s else clientSocket s,
                          SignalMsg data)]))))"

definition browser_event :: "gateway \<Rightarrow> socket_id \<Rightarrow> payload \<Rightarrow> gateway \<times> emission list" where
  "browser_event g socket data =
     (case connections g socket of
        None \<Rightarrow> (g, [])
      | Some conn \<Rightarrow>
          (case session_token (sessionId conn) of
             None \<Rightarrow> (g, [])
           | Some sid \<Rightarrow>
               (case sessions g sid of
                  None \<Rightarrow> (g, [])
                | Some s \<Rightarrow>
                    (case ctype conn of
                       Client \<Rightarrow> (g, [(workerSocket s, InputEvent data)])
                     | Worker \<Rightarrow> (g, [(clientSocket s, Frame data)])))))"

text \<open>\<open>indexOf\<close> followed by \<open>splice(idx, 1)\<close> removes the first occurrence: \<open>remove1\<close>.\<close>

definition disconnect_worker :: "gateway \<Rightarrow> socket_id \<Rightarrow> connection \<Rightarrow> gateway \<times> emission list" where
  "disconnect_worker g socket conn =
     (let g1 = g\<lparr>availableWorkers := remove1 socket (availableWorkers g)\<rparr>
      in case session_token (sessionId conn) of
           None \<Rightarrow> (g1, [])
         | Some sid \<Rightarrow>
             (g1\<lparr>sessions := (sessions g1)(sid := None)\<rparr>,
              case sessions g1 sid of
                None \<Rightarrow> []
              | Some s \<Rightarrow> [(clientSocket s, WorkerDisconnected)]))"

definition disconnect_client :: "gateway \<Rightarrow> socket_id \<Rightarrow> connection \<Rightarrow> gateway \<times> emission list" where
  "disconnect_client g socket conn =
     (let (g1, out) =
        (case session_token (sessionId conn) of
           None \<Rightarrow> (g, [])
         | Some sid \<Rightarrow>
             (case sessions g sid of
                None \<Rightarrow> (g\<lparr>sessions := (sessions g)(sid := None)\<rparr>, [])
              | Some s \<Rightarrow>
                  (g\<lparr>sessions := (sessions g)(sid := None),
                     timers := timers g @ [workerSocket s]\<rparr>,
                   [(workerSocket s, StopSession)])))
      in (g1\<lparr>waitingClients := remove1 socket (waitingClients g1)\<rparr>, out))"

definition disconnect :: "gateway \<Rightarrow> socket_id \<Rightarrow> gateway \<times> emission list" where
  "disconnect g socket =
     (case connections g socket of
        None \<Rightarrow> (g, [])
      | Some conn \<Rightarrow>
          (let (g1, out) = (if ctype conn = Worker then disconnect_worker g socket conn
                            else disconnect_client g socket conn)
           in (g1\<lparr>connections := (connections g1)(socket := None)\<rparr>, out)))"

text \<open>
  The callback given to \<open>setTimeout\<close> in the client branch of the disconnect handler,
  for the oldest pending timer.
\<close>

definition reclaim :: "gateway \<Rightarrow> gateway \<times> emission list" where
  "reclaim g =
     (case timers g of
        [] \<Rightarrow> (g, [])
      | worker # rest \<Rightarrow>
          (case connections g worker of
             None \<Rightarrow> (g\<lparr>timers := rest\<rparr>, [])
           | Some conn \<Rightarrow>
               (g\<lparr>timers := rest,
                  connections := (connections g)(worker \<mapsto>
                     conn\<lparr>status := Some Idle, sessionId := Null\<rparr>),
                  availableWorkers := availableWorkers g @ [worker]\<rparr>, [])))"

subsection \<open>Events\<close>

text \<open>
  What the event loop can deliver. \<open>RegisterWorker\<close> and \<open>RequestSession\<close> carry the
  random token that a pairing in this handler would draw. \<open>StopSessionEv\<close> is the
  \<open>stop-session\<close> message that \<open>terminateSession\<close> of Frontend/src/App.jsx sends to the
  gateway; the gateway registers no listener under that name, so the message is ignored.
\<close>

datatype event =
    RegisterWorker socket_id session_id
  | RegisterClient socket_id
  | RequestSession socket_id "payload option" session_id
  | Signal socket_id payload
  | BrowserEvent socket_id payload
  | StopSessionEv socket_id
  | Disconnect socket_id
  | TimerFire

fun step :: "gateway \<Rightarrow> event \<Rightarrow> gateway \<times> emission list" where
  "step g (RegisterWorker socket sid) = register_worker g socket sid"
| "step g (RegisterClient socket) = register_client g socket"
| "step g (RequestSession socket config sid) = request_session g socket config sid"
| "step g (Signal socket data) = signal g socket data"
| "step g (BrowserEvent socket data) = browser_event g socket data"
| "step g (StopSessionEv socket) = (g, [])"
| "step g (Disconnect socket) = disconnect g socket"
| "step g TimerFire = reclaim g"

text \<open>A sequence of events, with all the messages emitted on the way.\<close>

fun run :: "gateway \<Rightarrow> event list \<Rightarrow> gateway \<times> emission list" where
  "run g [] = (g, [])"
| "run g (e # es) =
     (case step g e of (g1, out1) \<Rightarrow>
        (case run g1 es of (g2, out2) \<Rightarrow> (g2, out1 @ out2)))"


text \<open>
  The spec's reading of the loop: an entry of the pool is usable when it resolves in the
  registry with status \<open>idle\<close>.
\<close>

definition idle_registered :: "(socket_id \<rightharpoonup> connection) \<Rightarrow> socket_id \<Rightarrow> bool" where
  "idle_registered conns w =
     (case conns w of None \<Rightarrow> False | Some conn \<Rightarrow> status conn = Some Idle)"

subsection \<open>Session tokens along a run\<close>

text \<open>
  The token that an event hands to \<open>Math.random\<close>'s place, and the tokens of a sequence
  of events. A run in which the random source never repeats itself is one whose tokens
  are distinct.
\<close>

fun event_token :: "event \<Rightarrow> session_id list" where
  "event_token (RegisterWorker socket sid) = [sid]"
| "event_token (RequestSession socket config sid) = [sid]"
| "event_token _ = []"

definition tokens :: "event list \<Rightarrow> session_id list" where
  "tokens evs = concat (map event_token evs)"

text \<open>
  The invariant behind the binding of connections to sessions: every token stored in a
  connection has been drawn already (it is in \<open>U\<close>), and where it still names an entry of
  the session table, the connection is one of the two sockets of that entry.
\<close>

definition bound_ok ::
    "session_id set \<Rightarrow> (socket_id \<rightharpoonup> connection) \<Rightarrow> (session_id \<rightharpoonup> session) \<Rightarrow> bool" where
  "bound_ok U conns sess =
     (\<forall>c conn t. conns c = Some conn \<and> sessionId conn = Token t \<longrightarrow>
        t \<in> U \<and> (\<forall>s. sess t = Some s \<longrightarrow> c = clientSocket s \<or> c = workerSocket s))"

abbreviation gw_inv :: "session_id set \<Rightarrow> gateway \<Rightarrow> bool" where
  "gw_inv U g \<equiv> bound_ok U (connections g) (sessions g)"


section \<open>Basic facts about the handlers\<close>

lemmas handler_defs = register_worker_def register_client_def request_session_def signal_def
  browser_event_def disconnect_def disconnect_worker_def disconnect_client_def reclaim_def
  matchClientWithWorker_def assign_def new_client_def new_worker_def init_def Let_def

subsection \<open>Pairing\<close>

lemma match_frame [simp]:
  "waitingClients (fst (matchClientWithWorker g c w cfg sid)) = waitingClients g"
  "availableWorkers (fst (matchClientWithWorker g c w cfg sid)) = availableWorkers g"
  "timers (fst (matchClientWithWorker g c w cfg sid)) = timers g"
  by (simp_all add: matchClientWithWorker_def Let_def)

lemma match_commit:
  assumes "connections g w = Some wc"
  shows "sessions (fst (matchClientWithWorker g c w cfg sid)) =
           (sessions g)(sid \<mapsto> \<lparr>clientSocket = c, workerSocket = w\<rparr>)"
    and "snd (matchClientWithWorker g c w cfg sid) =
           [(w, StartSession cfg), (c, SessionStarted sid)]"
    and "connections (fst (matchClientWithWorker g c w cfg sid)) w =
           Some (wc\<lparr>sessionId := Token sid, status := Some Busy\<rparr>)"
    and "x \<noteq> c \<Longrightarrow> x \<noteq> w \<Longrightarrow>
           connections (fst (matchClientWithWorker g c w cfg sid)) x = connections g x"
    and "c \<noteq> w \<Longrightarrow> connections (fst (matchClientWithWorker g c w cfg sid)) c =
           Some ((case connections g c of None \<Rightarrow> new_client | Some cc \<Rightarrow> cc)
                   \<lparr>sessionId := Token sid\<rparr>)"
  using assms
  by (auto simp: matchClientWithWorker_def Let_def assign_def split: option.splits)

lemma match_abort:
  assumes "connections g w = None" "c \<noteq> w"
  shows "matchClientWithWorker g c w cfg sid =
           (g\<lparr>connections := (if connections g c = None
                                then (connections g)(c \<mapsto> new_client)
                                else connections g)\<rparr>, [])"
  using assms by (simp add: matchClientWithWorker_def Let_def)

lemma match_status_other:
  assumes "x \<noteq> w" "connections g x = Some xc"
  shows "\<exists>xc'. connections (fst (matchClientWithWorker g c w cfg sid)) x = Some xc' \<and>
               status xc' = status xc \<and> ctype xc' = ctype xc"
  using assms
  by (auto simp: matchClientWithWorker_def Let_def assign_def split: option.splits)

subsection \<open>The scan of the pool\<close>

lemma takeProvider_dropWhile:
  "takeProvider conns pool =
     (case dropWhile (\<lambda>w. \<not> idle_registered conns w) pool of
        [] \<Rightarrow> (None, [])
      | w # rest \<Rightarrow> (Some w, rest))"
  by (induction pool) (auto simp: idle_registered_def split: option.splits)

lemma takeProvider_Some:
  "takeProvider conns pool = (Some w, rest) \<Longrightarrow>
     \<exists>conn. conns w = Some conn \<and> status conn = Some Idle"
  by (induction pool) (auto split: option.splits if_splits)

lemma takeProvider_head:
  "conns w = Some conn \<Longrightarrow> status conn = Some Idle \<Longrightarrow>
     takeProvider conns (w # rest) = (Some w, rest)"
  by simp

subsection \<open>Registration and request with a usable worker at the head of the pool\<close>

lemma register_worker_offer:
  "waitingClients g = [] \<Longrightarrow>
     step g (RegisterWorker w sid) =
       (g\<lparr>connections := (connections g)(w \<mapsto> new_worker),
          availableWorkers := availableWorkers g @ [w]\<rparr>, [])"
  by (simp add: register_worker_def Let_def)

lemma request_session_head:
  assumes "availableWorkers g = w # rest" "connections g w = Some wc" "status wc = Some Idle"
  shows "sessions (fst (step g (RequestSession r cfg sid))) =
            (sessions g)(sid \<mapsto> \<lparr>clientSocket = r, workerSocket = w\<rparr>)"
    and "snd (step g (RequestSession r cfg sid)) =
            [(w, StartSession cfg), (r, SessionStarted sid)]"
    and "availableWorkers (fst (step g (RequestSession r cfg sid))) = rest"
    and "waitingClients (fst (step g (RequestSession r cfg sid))) = waitingClients g"
    and "connections (fst (step g (RequestSession r cfg sid))) w =
           Some (wc\<lparr>sessionId := Token sid, status := Some Busy\<rparr>)"
    and "x \<noteq> r \<Longrightarrow> x \<noteq> w \<Longrightarrow>
           connections (fst (step g (RequestSession r cfg sid))) x = connections g x"
proof -
  let ?g1 = "if connections g r = None
             then g\<lparr>connections := (connections g)(r \<mapsto> new_client)\<rparr> else g"
  have w1: "connections ?g1 w = Some wc" using assms(2) by auto
  have pool: "availableWorkers ?g1 = w # rest" using assms(1) by simp
  have tp: "takeProvider (connections ?g1) (availableWorkers ?g1) = (Some w, rest)"
    unfolding pool using w1 assms(3) by (rule takeProvider_head)
  have st: "step g (RequestSession r cfg sid) =
              matchClientWithWorker (?g1\<lparr>availableWorkers := rest\<rparr>) r w cfg sid"
    using tp by (simp add: request_session_def Let_def)
  have w2: "connections (?g1\<lparr>availableWorkers := rest\<rparr>) w = Some wc" using w1 by simp
  note mc = match_commit[OF w2, where c = r and cfg = cfg and sid = sid]
  show "sessions (fst (step g (RequestSession r cfg sid))) =
            (sessions g)(sid \<mapsto> \<lparr>clientSocket = r, workerSocket = w\<rparr>)"
    unfolding st mc(1) by simp
  show "snd (step g (RequestSession r cfg sid)) =
            [(w, StartSession cfg), (r, SessionStarted sid)]"
    unfolding st by (rule mc(2))
  show "availableWorkers (fst (step g (RequestSession r cfg sid))) = rest"
    unfolding st by simp
  show "waitingClients (fst (step g (RequestSession r cfg sid))) = waitingClients g"
    unfolding st by simp
  show "connections (fst (step g (RequestSession r cfg sid))) w =
           Some (wc\<lparr>sessionId := Token sid, status := Some Busy\<rparr>)"
    unfolding st by (rule mc(3))
  show "x \<noteq> r \<Longrightarrow> x \<noteq> w \<Longrightarrow>
           connections (fst (step g (RequestSession r cfg sid))) x = connections g x"
    unfolding st using mc(4)[where x = x] by simp
qed

lemma request_session_status_other:
  assumes "availableWorkers g = w # rest" "connections g w = Some wc" "status wc = Some Idle"
    "x \<noteq> w" "connections g x = Some xc"
  shows "\<exists>xc'. connections (fst (step g (RequestSession r cfg sid))) x = Some xc' \<and>
               status xc' = status xc"
proof -
  let ?g1 = "if connections g r = None
             then g\<lparr>connections := (connections g)(r \<mapsto> new_client)\<rparr> else g"
  have w1: "connections ?g1 w = Some wc" using assms(2) by auto
  have x1: "connections ?g1 x = Some xc" using assms(5) by auto
  have pool: "availableWorkers ?g1 = w # rest" using assms(1) by simp
  have tp: "takeProvider (connections ?g1) (availableWorkers ?g1) = (Some w, rest)"
    unfolding pool using w1 assms(3) by (rule takeProvider_head)
  have st: "step g (RequestSession r cfg sid) =
              matchClientWithWorker (?g1\<lparr>availableWorkers := rest\<rparr>) r w cfg sid"
    using tp by (simp add: request_session_def Let_def)
  have x2: "connections (?g1\<lparr>availableWorkers := rest\<rparr>) x = Some xc" using x1 by simp
  show ?thesis unfolding st using match_status_other[OF assms(4) x2] by blast
qed

lemma fifo_scenario:
  assumes "waitingClients g = []" "availableWorkers g = []" "P1 \<noteq> P2"
  shows "case run g [RegisterWorker P1 t1, RegisterWorker P2 t2] of (g2, out2) \<Rightarrow>
           out2 = [] \<and>
           (case step g2 (RequestSession R1 c1 s1) of (g3, out3) \<Rightarrow>
              out3 = [(P1, StartSession c1), (R1, SessionStarted s1)] \<and>
              sessions g3 s1 = Some \<lparr>clientSocket = R1, workerSocket = P1\<rparr> \<and>
              (case step g3 (RequestSession R2 c2 s2) of (g4, out4) \<Rightarrow>
                 out4 = [(P2, StartSession c2), (R2, SessionStarted s2)] \<and>
                 sessions g4 s2 = Some \<lparr>clientSocket = R2, workerSocket = P2\<rparr>))"
proof -
  let ?g1 = "g\<lparr>connections := (connections g)(P1 \<mapsto> new_worker),
                availableWorkers := availableWorkers g @ [P1]\<rparr>"
  let ?g2 = "?g1\<lparr>connections := (connections ?g1)(P2 \<mapsto> new_worker),
                  availableWorkers := availableWorkers ?g1 @ [P2]\<rparr>"
  have s1: "step g (RegisterWorker P1 t1) = (?g1, [])"
    using assms(1) by (rule register_worker_offer)
  have q1: "waitingClients ?g1 = []" using assms(1) by simp
  have s2: "step ?g1 (RegisterWorker P2 t2) = (?g2, [])"
    using q1 by (rule register_worker_offer)
  have r2: "run g [RegisterWorker P1 t1, RegisterWorker P2 t2] = (?g2, [])"
    by (simp add: s1 s2 del: step.simps)
  have pool2: "availableWorkers ?g2 = P1 # [P2]" using assms(2) by simp
  have c21: "connections ?g2 P1 = Some new_worker" using assms(3) by simp
  have c22: "connections ?g2 P2 = Some new_worker" by simp
  have idle: "status new_worker = Some Idle" by (simp add: new_worker_def)
  let ?g3 = "fst (step ?g2 (RequestSession R1 c1 s1))"
  note h3 = request_session_head[OF pool2 c21 idle, where r = R1 and cfg = c1 and sid = s1]
  obtain wc where c32: "connections ?g3 P2 = Some wc" and st32: "status wc = status new_worker"
    using request_session_status_other[OF pool2 c21 idle _ c22, of R1 c1 s1] assms(3)
    by blast
  have pool3: "availableWorkers ?g3 = P2 # []" by (rule h3(3))
  have idle3: "status wc = Some Idle" using st32 idle by simp
  note h4 = request_session_head[OF pool3 c32 idle3, where r = R2 and cfg = c2 and sid = s2]
  show ?thesis
    unfolding r2 using h3(1,2) h4(1,2) by (simp add: case_prod_beta del: step.simps)
qed

subsection \<open>Disconnect of a bound client, and the timer\<close>

lemma disconnect_bound_client:
  assumes "connections g c = Some conn" "ctype conn = Client" "sessionId conn = Token S"
    "S \<noteq> []" "sessions g S = Some \<lparr>clientSocket = c, workerSocket = w\<rparr>"
  shows "step g (Disconnect c) =
     (g\<lparr>sessions := (sessions g)(S := None), timers := timers g @ [w],
        waitingClients := remove1 c (waitingClients g),
        connections := (connections g)(c := None)\<rparr>, [(w, StopSession)])"
  using assms by (simp add: disconnect_def disconnect_client_def)

lemma reclaim_head:
  assumes "timers t = w # rest"
  shows "step t TimerFire =
          (case connections t w of
             None \<Rightarrow> (t\<lparr>timers := rest\<rparr>, [])
           | Some wc \<Rightarrow>
               (t\<lparr>timers := rest,
                  connections := (connections t)(w \<mapsto>
                     wc\<lparr>status := Some Idle, sessionId := Null\<rparr>),
                  availableWorkers := availableWorkers t @ [w]\<rparr>, []))"
  using assms by (simp add: reclaim_def)

subsection \<open>Where sessions come from\<close>

lemma takeProvider_mem:
  "takeProvider conns pool = (Some w, rest) \<Longrightarrow> w \<in> set pool"
  by (induction pool) (auto split: option.splits if_splits)

lemma sessions_disconnect:
  "sessions (fst (disconnect g c)) t = Some s \<Longrightarrow> sessions g t = Some s"
  by (auto simp: disconnect_def disconnect_worker_def disconnect_client_def Let_def
        split: option.splits if_splits)

lemma sessions_reclaim: "sessions (fst (reclaim g)) = sessions g"
  by (simp add: reclaim_def split: list.splits option.splits)

lemma sessions_relay:
  "sessions (fst (signal g c d)) = sessions g"
  "sessions (fst (browser_event g c d)) = sessions g"
  by (simp_all add: signal_def browser_event_def split: option.splits conn_type.splits)

lemma sessions_register_client: "sessions (fst (register_client g c)) = sessions g"
  by (simp add: register_client_def)

lemma match_new_session:
  assumes "sessions (fst (matchClientWithWorker g c w cfg sid)) t = Some s"
    "sessions g t \<noteq> Some s"
  shows "t = sid \<and> s = \<lparr>clientSocket = c, workerSocket = w\<rparr> \<and>
         (\<exists>wc. connections (fst (matchClientWithWorker g c w cfg sid)) w = Some wc \<and>
               status wc = Some Busy \<and> sessionId wc = Token sid) \<and>
         (\<exists>cc. connections (fst (matchClientWithWorker g c w cfg sid)) c = Some cc \<and>
               sessionId cc = Token sid)"
  using assms
  by (auto simp: matchClientWithWorker_def Let_def assign_def new_client_def
           split: option.splits if_splits)

lemma register_worker_new_session:
  assumes "sessions (fst (register_worker g w sid)) t = Some s" "sessions g t \<noteq> Some s"
  shows "t = sid \<and> workerSocket s = w \<and> (\<exists>rest. waitingClients g = clientSocket s # rest) \<and>
         (\<exists>wc. connections (fst (register_worker g w sid)) w = Some wc \<and>
               status wc = Some Busy \<and> sessionId wc = Token sid) \<and>
         (\<exists>cc. connections (fst (register_worker g w sid)) (clientSocket s) = Some cc \<and>
               sessionId cc = Token sid)"
proof (cases "waitingClients g")
  case Nil
  then have "sessions (fst (register_worker g w sid)) = sessions g"
    by (simp add: register_worker_def Let_def)
  with assms show ?thesis by simp
next
  case (Cons client rest)
  let ?g1 = "g\<lparr>connections := (connections g)(w \<mapsto> new_worker), waitingClients := rest\<rparr>"
  have st: "register_worker g w sid = matchClientWithWorker ?g1 client w None sid"
    using Cons by (simp add: register_worker_def Let_def)
  have "sessions ?g1 t \<noteq> Some s" using assms(2) by simp
  from match_new_session[OF assms(1)[unfolded st] this] show ?thesis
    unfolding st using Cons by simp
qed

lemma request_session_new_session:
  assumes "sessions (fst (request_session g r cfg sid)) t = Some s" "sessions g t \<noteq> Some s"
  shows "t = sid \<and> clientSocket s = r \<and> workerSocket s \<in> set (availableWorkers g) \<and>
         (\<exists>wc. connections g (workerSocket s) = Some wc \<and> status wc = Some Idle) \<and>
         (\<exists>wc. connections (fst (request_session g r cfg sid)) (workerSocket s) = Some wc \<and>
               status wc = Some Busy \<and> sessionId wc = Token sid) \<and>
         (\<exists>cc. connections (fst (request_session g r cfg sid)) r = Some cc \<and>
               sessionId cc = Token sid)"
proof -
  let ?g1 = "if connections g r = None
             then g\<lparr>connections := (connections g)(r \<mapsto> new_client)\<rparr> else g"
  obtain res pool where tp: "takeProvider (connections ?g1) (availableWorkers ?g1) = (res, pool)"
    by (cases "takeProvider (connections ?g1) (availableWorkers ?g1)")
  show ?thesis
  proof (cases res)
    case None
    then have "sessions (fst (request_session g r cfg sid)) = sessions g"
      using tp by (simp add: request_session_def Let_def)
    with assms show ?thesis by simp
  next
    case (Some w)
    then have st: "request_session g r cfg sid =
        matchClientWithWorker (?g1\<lparr>availableWorkers := pool\<rparr>) r w cfg sid"
      using tp by (simp add: request_session_def Let_def)
    have tp': "takeProvider (connections ?g1) (availableWorkers ?g1) = (Some w, pool)"
      using tp Some by simp
    have mem: "w \<in> set (availableWorkers g)"
      using takeProvider_mem[OF tp'] by (simp split: if_splits)
    obtain wc where wc: "connections ?g1 w = Some wc" "status wc = Some Idle"
      using takeProvider_Some[OF tp'] by blast
    have idle: "\<exists>wc. connections g w = Some wc \<and> status wc = Some Idle"
      using wc by (auto simp: new_client_def split: if_splits)
    have "sessions (?g1\<lparr>availableWorkers := pool\<rparr>) t \<noteq> Some s" using assms(2) by simp
    from match_new_session[OF assms(1)[unfolded st] this] show ?thesis
      unfolding st using mem idle by simp
  qed
qed

subsection \<open>A request is answered by a pairing or by the queue\<close>






subsection \<open>Tokens stored in connections\<close>

lemma bound_ok_mono: "bound_ok U conns sess \<Longrightarrow> U \<subseteq> V \<Longrightarrow> bound_ok V conns sess"
  unfolding bound_ok_def by blast

lemma bound_ok_remove: "bound_ok U conns sess \<Longrightarrow> bound_ok U (conns(c := None)) sess"
  unfolding bound_ok_def by (auto split: if_splits)

lemma bound_ok_delete: "bound_ok U conns sess \<Longrightarrow> bound_ok U conns (sess(t := None))"
  unfolding bound_ok_def by (auto split: if_splits)

lemma bound_ok_put:
  "bound_ok U conns sess \<Longrightarrow> \<forall>t. sessionId nc \<noteq> Token t \<Longrightarrow> bound_ok U (conns(c \<mapsto> nc)) sess"
  unfolding bound_ok_def by (auto split: if_splits)

lemma bound_ok_match:
  assumes "bound_ok U (connections g) (sessions g)" "sid \<notin> U"
  shows "bound_ok (insert sid U) (connections (fst (matchClientWithWorker g c w cfg sid)))
           (sessions (fst (matchClientWithWorker g c w cfg sid)))"
proof (cases "connections g w = None \<and> c \<noteq> w")
  case True
  then have "matchClientWithWorker g c w cfg sid =
           (g\<lparr>connections := (if connections g c = None
                                then (connections g)(c \<mapsto> new_client)
                                else connections g)\<rparr>, [])"
    using match_abort by blast
  moreover have "bound_ok U ((connections g)(c \<mapsto> new_client)) (sessions g)"
    using assms(1) by (rule bound_ok_put) (simp add: new_client_def)
  ultimately have "bound_ok U (connections (fst (matchClientWithWorker g c w cfg sid)))
           (sessions (fst (matchClientWithWorker g c w cfg sid)))"
    using assms(1) by simp
  then show ?thesis by (rule bound_ok_mono) blast
next
  case False
  then show ?thesis
    using assms unfolding bound_ok_def
    by (auto simp: matchClientWithWorker_def Let_def assign_def new_client_def
             split: option.splits if_splits)
qed

lemma inv_register_worker:
  assumes "gw_inv U g" "sid \<notin> U"
  shows "gw_inv (insert sid U) (fst (register_worker g w sid))"
proof -
  let ?g1 = "g\<lparr>connections := (connections g)(w \<mapsto> new_worker)\<rparr>"
  have i1: "gw_inv U ?g1"
    using bound_ok_put[OF assms(1), of new_worker w] by (simp add: new_worker_def)
  show ?thesis
  proof (cases "waitingClients g")
    case Nil
    then have "fst (register_worker g w sid) = ?g1\<lparr>availableWorkers := availableWorkers g @ [w]\<rparr>"
      by (simp add: register_worker_def Let_def)
    moreover have "gw_inv (insert sid U) ?g1" by (rule bound_ok_mono[OF i1]) blast
    ultimately show ?thesis by simp
  next
    case (Cons client rest)
    then have st: "register_worker g w sid =
        matchClientWithWorker (?g1\<lparr>waitingClients := rest\<rparr>) client w None sid"
      by (simp add: register_worker_def Let_def)
    have "gw_inv U (?g1\<lparr>waitingClients := rest\<rparr>)" using i1 by simp
    then show ?thesis unfolding st using assms(2) by (rule bound_ok_match)
  qed
qed

lemma inv_request_session:
  assumes "gw_inv U g" "sid \<notin> U"
  shows "gw_inv (insert sid U) (fst (request_session g r cfg sid))"
proof -
  let ?g1 = "if connections g r = None
             then g\<lparr>connections := (connections g)(r \<mapsto> new_client)\<rparr> else g"
  have i1: "gw_inv U ?g1"
    using bound_ok_put[OF assms(1), of new_client r] assms(1) by (simp add: new_client_def)
  obtain res pool where tp: "takeProvider (connections ?g1) (availableWorkers ?g1) = (res, pool)"
    by (cases "takeProvider (connections ?g1) (availableWorkers ?g1)")
  show ?thesis
  proof (cases res)
    case None
    then have "fst (request_session g r cfg sid) =
        ?g1\<lparr>availableWorkers := pool, waitingClients := waitingClients ?g1 @ [r]\<rparr>"
      using tp by (simp add: request_session_def Let_def)
    moreover have "gw_inv (insert sid U) ?g1" by (rule bound_ok_mono[OF i1]) blast
    ultimately show ?thesis by simp
  next
    case (Some w)
    then have st: "request_session g r cfg sid =
        matchClientWithWorker (?g1\<lparr>availableWorkers := pool\<rparr>) r w cfg sid"
      using tp by (simp add: request_session_def Let_def)
    have "gw_inv U (?g1\<lparr>availableWorkers := pool\<rparr>)" using i1 by simp
    then show ?thesis unfolding st using assms(2) by (rule bound_ok_match)
  qed
qed

lemma inv_register_client: "gw_inv U g \<Longrightarrow> gw_inv U (fst (register_client g c))"
  using bound_ok_put[of U "connections g" "sessions g" new_client c]
  by (simp add: register_client_def new_client_def)

lemma inv_disconnect: "gw_inv U g \<Longrightarrow> gw_inv U (fst (disconnect g c))"
  by (auto simp: disconnect_def disconnect_worker_def disconnect_client_def Let_def
        intro!: bound_ok_remove bound_ok_delete split: option.splits)

lemma inv_reclaim: "gw_inv U g \<Longrightarrow> gw_inv U (fst (reclaim g))"
  by (auto simp: reclaim_def intro!: bound_ok_put split: list.splits option.splits)

lemma inv_step:
  assumes "gw_inv U g" "set (event_token ev) \<inter> U = {}"
  shows "gw_inv (U \<union> set (event_token ev)) (fst (step g ev))"
proof (cases ev)
  case (RegisterWorker w sid)
  then show ?thesis using inv_register_worker[OF assms(1), of sid w] assms(2) by simp
next
  case (RegisterClient c)
  then show ?thesis using inv_register_client[OF assms(1)] by simp
next
  case (RequestSession r cfg sid)
  then show ?thesis using inv_request_session[OF assms(1), of sid r cfg] assms(2) by simp
next
  case (Signal c d)
  then show ?thesis using assms(1) by (simp add: signal_def split: option.splits)
next
  case (BrowserEvent c d)
  then show ?thesis using assms(1)
    by (simp add: browser_event_def split: option.splits conn_type.splits)
next
  case (StopSessionEv c)
  then show ?thesis using assms(1) by simp
next
  case (Disconnect c)
  then show ?thesis using inv_disconnect[OF assms(1)] by simp
next
  case TimerFire
  then show ?thesis using inv_reclaim[OF assms(1)] by simp
qed

lemma inv_run:
  "gw_inv U g \<Longrightarrow> distinct (tokens evs) \<Longrightarrow> set (tokens evs) \<inter> U = {} \<Longrightarrow>
     gw_inv (U \<union> set (tokens evs)) (fst (run g evs))"
proof (induction evs arbitrary: g U)
  case Nil
  then show ?case by (simp add: tokens_def)
next
  case (Cons e es)
  have d: "distinct (event_token e)" "distinct (tokens es)"
    "set (event_token e) \<inter> set (tokens es) = {}"
    using Cons.prems(2) by (auto simp: tokens_def)
  have fresh: "set (event_token e) \<inter> U = {}" "set (tokens es) \<inter> U = {}"
    using Cons.prems(3) by (auto simp: tokens_def)
  have i1: "gw_inv (U \<union> set (event_token e)) (fst (step g e))"
    using Cons.prems(1) fresh(1) by (rule inv_step)
  have "set (tokens es) \<inter> (U \<union> set (event_token e)) = {}"
    using d(3) fresh(2) by blast
  from Cons.IH[OF i1 d(2) this]
  have "gw_inv (U \<union> set (event_token e) \<union> set (tokens es)) (fst (run (fst (step g e)) es))" .
  moreover have "U \<union> set (event_token e) \<union> set (tokens es) = U \<union> set (tokens (e # es))"
    by (auto simp: tokens_def)
  moreover have "fst (run g (e # es)) = fst (run (fst (step g e)) es)"
    by (simp add: case_prod_beta del: step.simps)
  ultimately show ?case by simp
qed

subsection \<open>Registering a client twice; a busy worker between events\<close>

lemma register_client_idempotent:
  "step (fst (step g (RegisterClient c))) (RegisterClient c) = (fst (step g (RegisterClient c)), [])"
  by (auto simp: register_client_def)

text \<open>
  A worker that is busy stays busy, and is not told to start a session, as long as it does
  not itself disconnect or send \<open>register-worker\<close> again and no reclaim timer fires for it.
\<close>

lemma match_busy_kept:
  assumes "connections g w = Some wc" "status wc = Some Busy"
  shows "\<exists>wc'. connections (fst (matchClientWithWorker g c x cfg sid)) w = Some wc' \<and>
               status wc' = Some Busy"
  using assms
  by (auto simp: matchClientWithWorker_def Let_def assign_def split: option.splits)

lemma busy_kept:
  assumes "connections g w = Some wc" "status wc = Some Busy"
    "ev \<noteq> Disconnect w" "\<forall>t. ev \<noteq> RegisterWorker w t"
    "ev = TimerFire \<longrightarrow> (\<forall>rest. timers g \<noteq> w # rest)"
  shows "\<exists>wc'. connections (fst (step g ev)) w = Some wc' \<and> status wc' = Some Busy"
proof (cases ev)
  case (RegisterWorker x t)
  then have xw: "x \<noteq> w" using assms(4) by auto
  let ?g1 = "g\<lparr>connections := (connections g)(x \<mapsto> new_worker)\<rparr>"
  have c1: "connections ?g1 w = Some wc" using assms(1) xw by simp
  show ?thesis
  proof (cases "waitingClients g")
    case Nil
    then show ?thesis using RegisterWorker c1 assms(2)
      by (simp add: register_worker_def Let_def)
  next
    case (Cons client rest)
    then have st: "step g ev = matchClientWithWorker (?g1\<lparr>waitingClients := rest\<rparr>) client x None t"
      using RegisterWorker by (simp add: register_worker_def Let_def)
    have "connections (?g1\<lparr>waitingClients := rest\<rparr>) w = Some wc" using c1 by simp
    then show ?thesis unfolding st using assms(2) by (rule match_busy_kept)
  qed
next
  case (RegisterClient c)
  then show ?thesis using assms(1,2) by (auto simp: register_client_def)
next
  case (RequestSession r cfg t)
  let ?g1 = "if connections g r = None
             then g\<lparr>connections := (connections g)(r \<mapsto> new_client)\<rparr> else g"
  have c1: "connections ?g1 w = Some wc" using assms(1) by auto
  obtain res pool where tp: "takeProvider (connections ?g1) (availableWorkers ?g1) = (res, pool)"
    by (cases "takeProvider (connections ?g1) (availableWorkers ?g1)")
  show ?thesis
  proof (cases res)
    case None
    then have "connections (fst (step g ev)) = connections ?g1"
      using tp RequestSession by (simp add: request_session_def Let_def)
    then show ?thesis using c1 assms(2) by simp
  next
    case (Some x)
    then have st: "step g ev = matchClientWithWorker (?g1\<lparr>availableWorkers := pool\<rparr>) r x cfg t"
      using tp RequestSession by (simp add: request_session_def Let_def)
    have "connections (?g1\<lparr>availableWorkers := pool\<rparr>) w = Some wc" using c1 by simp
    then show ?thesis unfolding st using assms(2) by (rule match_busy_kept)
  qed
next
  case (Signal c d)
  then show ?thesis using assms(1,2) by (simp add: signal_def split: option.splits)
next
  case (BrowserEvent c d)
  then show ?thesis using assms(1,2)
    by (simp add: browser_event_def split: option.splits conn_type.splits)
next
  case (StopSessionEv c)
  then show ?thesis using assms(1,2) by simp
next
  case (Disconnect c)
  then have "c \<noteq> w" using assms(3) by auto
  then show ?thesis using Disconnect assms(1,2)
    by (auto simp: disconnect_def disconnect_worker_def disconnect_client_def Let_def
          split: option.splits)
next
  case TimerFire
  then show ?thesis using assms(1,2,5)
    by (auto simp: reclaim_def split: list.splits option.splits)
qed

lemma busy_not_paired:
  assumes "connections g w = Some wc" "status wc = Some Busy" "\<forall>t. ev \<noteq> RegisterWorker w t"
  shows "(w, StartSession cfg) \<notin> set (snd (step g ev))"
proof (cases ev)
  case (RegisterWorker x t)
  then have xw: "x \<noteq> w" using assms(3) by auto
  show ?thesis using RegisterWorker xw
    by (auto simp: register_worker_def matchClientWithWorker_def Let_def split: list.splits)
next
  case (RegisterClient c)
  then show ?thesis by (simp add: register_client_def)
next
  case (RequestSession r cfg' t)
  let ?g1 = "if connections g r = None
             then g\<lparr>connections := (connections g)(r \<mapsto> new_client)\<rparr> else g"
  have c1: "connections ?g1 w = Some wc" using assms(1) by auto
  obtain res pool where tp: "takeProvider (connections ?g1) (availableWorkers ?g1) = (res, pool)"
    by (cases "takeProvider (connections ?g1) (availableWorkers ?g1)")
  show ?thesis
  proof (cases res)
    case None
    then show ?thesis using tp RequestSession by (simp add: request_session_def Let_def)
  next
    case (Some x)
    then have "\<exists>conn. connections ?g1 x = Some conn \<and> status conn = Some Idle"
      using tp takeProvider_Some by blast
    then have "x \<noteq> w" using c1 assms(2) by auto
    moreover have "step g ev = matchClientWithWorker (?g1\<lparr>availableWorkers := pool\<rparr>) r x cfg' t"
      using tp Some RequestSession by (simp add: request_session_def Let_def)
    ultimately show ?thesis by (auto simp: matchClientWithWorker_def Let_def)
  qed
next
  case (Signal c d)
  then show ?thesis by (auto simp: signal_def split: option.splits)
next
  case (BrowserEvent c d)
  then show ?thesis by (auto simp: browser_event_def split: option.splits conn_type.splits)
next
  case (StopSessionEv c)
  then show ?thesis by simp
next
  case (Disconnect c)
  then show ?thesis
    by (auto simp: disconnect_def disconnect_worker_def disconnect_client_def Let_def
          split: option.splits if_splits)
next
  case TimerFire
  then show ?thesis by (auto simp: reclaim_def split: list.splits option.splits)
qed

section \<open>The claims\<close>

text \<open>
  C6 (delayed reclaim), as amended. A client whose \<open>sessionId\<close> is the non-empty token
  \<open>S\<close> of a live session of which it is the client, with worker \<open>w\<close>, disconnects:
  \<open>stop-session\<close> is emitted to \<open>w\<close> and nothing else, \<open>S\<close> is deleted from the session
  table at once, the client leaves the registry, the pool is not touched, and a timer for
  \<open>w\<close> is scheduled. When that timer fires: if \<open>w\<close> is still in the registry its status
  becomes \<open>idle\<close>, its \<open>sessionId\<close> becomes \<open>null\<close> and it is pushed on the tail of the
  pool; if it is not, nothing but the timer changes.
\<close>

theorem delayed_reclaim:
  "(connections g c = Some conn \<and> ctype conn = Client \<and> sessionId conn = Token S \<and>
    S \<noteq> [] \<and> sessions g S = Some \<lparr>clientSocket = c, workerSocket = w\<rparr> \<longrightarrow>
      (case step g (Disconnect c) of (g', out) \<Rightarrow>
         out = [(w, StopSession)] \<and> sessions g' = (sessions g)(S := None) \<and>
         timers g' = timers g @ [w] \<and> connections g' = (connections g)(c := None) \<and>
         availableWorkers g' = availableWorkers g))
   \<and> (timers t = w # rest \<longrightarrow>
        step t TimerFire =
          (case connections t w of
             None \<Rightarrow> (t\<lparr>timers := rest\<rparr>, [])
           | Some wc \<Rightarrow>
               (t\<lparr>timers := rest,
                  connections := (connections t)(w \<mapsto>
                     wc\<lparr>status := Some Idle, sessionId := Null\<rparr>),
                  availableWorkers := availableWorkers t @ [w]\<rparr>, [])))"
proof (intro conjI impI)
  assume "connections g c = Some conn \<and> ctype conn = Client \<and> sessionId conn = Token S \<and>
    S \<noteq> [] \<and> sessions g S = Some \<lparr>clientSocket = c, workerSocket = w\<rparr>"
  then have "step g (Disconnect c) =
     (g\<lparr>sessions := (sessions g)(S := None), timers := timers g @ [w],
        waitingClients := remove1 c (waitingClients g),
        connections := (connections g)(c := None)\<rparr>, [(w, StopSession)])"
    using disconnect_bound_client by blast
  then show "case step g (Disconnect c) of (g', out) \<Rightarrow>
         out = [(w, StopSession)] \<and> sessions g' = (sessions g)(S := None) \<and>
         timers g' = timers g @ [w] \<and> connections g' = (connections g)(c := None) \<and>
         availableWorkers g' = availableWorkers g"
    by simp
next
  assume "timers t = w # rest"
  then show "step t TimerFire =
          (case connections t w of
             None \<Rightarrow> (t\<lparr>timers := rest\<rparr>, [])
           | Some wc \<Rightarrow>
               (t\<lparr>timers := rest,
                  connections := (connections t)(w \<mapsto>
                     wc\<lparr>status := Some Idle, sessionId := Null\<rparr>),
                  availableWorkers := availableWorkers t @ [w]\<rparr>, []))"
    by (rule reclaim_head)
qed


theorem delayed_reclaim_witness:
  "connections (fst (run init [RegisterWorker ''p1'' ''t0'',
                               RequestSession ''r1'' (Some ''url'') ''s1''])) ''r1'' =
     Some \<lparr>ctype = Client, status = None, sessionId = Token ''s1''\<rparr> \<and>
   sessions (fst (run init [RegisterWorker ''p1'' ''t0'',
                            RequestSession ''r1'' (Some ''url'') ''s1''])) ''s1'' =
     Some \<lparr>clientSocket = ''r1'', workerSocket = ''p1''\<rparr> \<and>
   (case step (fst (run init [RegisterWorker ''p1'' ''t0'',
                              RequestSession ''r1'' (Some ''url'') ''s1'']))
           (Disconnect ''r1'') of
      (g', out) \<Rightarrow>
        out = [(''p1'', StopSession)] \<and> sessions g' ''s1'' = None \<and> timers g' = [''p1''] \<and>
        connections g' ''r1'' = None \<and> availableWorkers g' = [])
   \<and> step (fst (run init [RegisterWorker ''p1'' ''t0'',
                          RequestSession ''r1'' (Some ''url'') ''s1'',
                          Disconnect ''r1''])) TimerFire =
       (\<lparr>connections = [''p1'' \<mapsto> \<lparr>ctype = Worker, status = Some Idle, sessionId = Null\<rparr>],
         sessions = Map.empty, waitingClients = [], availableWorkers = [''p1''],
         timers = []\<rparr>, [])
   \<and> step (fst (run init [RegisterWorker ''p1'' ''t0'',
                          RequestSession ''r1'' (Some ''url'') ''s1'',
                          Disconnect ''r1'', Disconnect ''p1''])) TimerFire =
       (\<lparr>connections = Map.empty,
         sessions = Map.empty, waitingClients = [], availableWorkers = [], timers = []\<rparr>, [])"
  using delayed_reclaim [of "fst (run init [RegisterWorker ''p1'' ''t0'',
          RequestSession ''r1'' (Some ''url'') ''s1''])"
      "''r1''" "\<lparr>ctype = Client, status = None, sessionId = Token ''s1''\<rparr>" "''s1''" "''p1''"
      "fst (run init [RegisterWorker ''p1'' ''t0'', RequestSession ''r1'' (Some ''url'') ''s1'',
                      Disconnect ''r1''])" "[]"]
    delayed_reclaim [of init "''r1''"
      "\<lparr>ctype = Client, status = None, sessionId = Token ''s1''\<rparr>" "''s1''" "''p1''"
      "fst (run init [RegisterWorker ''p1'' ''t0'', RequestSession ''r1'' (Some ''url'') ''s1'',
                      Disconnect ''r1'', Disconnect ''p1''])" "[]"]
  by (simp add: handler_defs fun_upd_twist)

text \<open>
  C6, the claim as stated fails. Client \<open>r1\<close> was paired twice, with \<open>p1\<close> in session
  \<open>s1\<close> and then with \<open>p2\<close> in session \<open>s2\<close>; its \<open>sessionId\<close> is \<open>s2\<close>. When it
  disconnects only \<open>s2\<close> is torn down: \<open>s1\<close> stays in the session table, \<open>p1\<close> gets no
  \<open>stop-session\<close> and no timer. And a client bound to a session whose token is the empty
  string disconnects without any teardown: the test of \<open>conn.sessionId\<close> is falsy.
\<close>

theorem disconnect_without_teardown:
  "step (fst (run init [RegisterWorker ''p1'' ''t1'', RegisterWorker ''p2'' ''t2'',
                        RequestSession ''r1'' (Some ''a'') ''s1'',
                        RequestSession ''r1'' (Some ''b'') ''s2''])) (Disconnect ''r1'') =
     (\<lparr>connections =
          [''p1'' \<mapsto> \<lparr>ctype = Worker, status = Some Busy, sessionId = Token ''s1''\<rparr>,
           ''p2'' \<mapsto> \<lparr>ctype = Worker, status = Some Busy, sessionId = Token ''s2''\<rparr>],
       sessions = [''s1'' \<mapsto> \<lparr>clientSocket = ''r1'', workerSocket = ''p1''\<rparr>],
       waitingClients = [], availableWorkers = [], timers = [''p2'']\<rparr>,
      [(''p2'', StopSession)]) \<and>
   step (fst (run init [RegisterWorker ''p1'' ''t0'', RequestSession ''r1'' (Some ''url'') '''']))
        (Disconnect ''r1'') =
     (\<lparr>connections =
          [''p1'' \<mapsto> \<lparr>ctype = Worker, status = Some Busy, sessionId = Token ''''\<rparr>],
       sessions = ['''' \<mapsto> \<lparr>clientSocket = ''r1'', workerSocket = ''p1''\<rparr>],
       waitingClients = [], availableWorkers = [], timers = []\<rparr>, [])"
  by (simp add: handler_defs fun_upd_twist)

text \<open>
  C7 (FIFO). The scan of the pool returns the first entry, from the head, that resolves in
  the registry with status \<open>idle\<close>, drops everything before it, and returns nothing and
  an empty pool when there is no such entry. And from any state with an empty queue and
  an empty pool: when two different workers \<open>P1\<close>, \<open>P2\<close> register in that order (nothing
  is emitted) and then \<open>R1\<close> and \<open>R2\<close> request a session in that order, \<open>R1\<close> is paired
  with \<open>P1\<close> and \<open>R2\<close> with \<open>P2\<close>.
\<close>

theorem fifo_matching:
  "takeProvider conns pool =
     (case dropWhile (\<lambda>w. \<not> idle_registered conns w) pool of
        [] \<Rightarrow> (None, [])
      | w # rest \<Rightarrow> (Some w, rest))
   \<and> (waitingClients g = [] \<and> availableWorkers g = [] \<and> P1 \<noteq> P2 \<longrightarrow>
        (case run g [RegisterWorker P1 t1, RegisterWorker P2 t2] of (g2, out2) \<Rightarrow>
           out2 = [] \<and>
           (case step g2 (RequestSession R1 c1 s1) of (g3, out3) \<Rightarrow>
              out3 = [(P1, StartSession c1), (R1, SessionStarted s1)] \<and>
              sessions g3 s1 = Some \<lparr>clientSocket = R1, workerSocket = P1\<rparr> \<and>
              (case step g3 (RequestSession R2 c2 s2) of (g4, out4) \<Rightarrow>
                 out4 = [(P2, StartSession c2), (R2, SessionStarted s2)] \<and>
                 sessions g4 s2 = Some \<lparr>clientSocket = R2, workerSocket = P2\<rparr>))))"
proof (intro conjI impI)
  show "takeProvider conns pool =
     (case dropWhile (\<lambda>w. \<not> idle_registered conns w) pool of
        [] \<Rightarrow> (None, [])
      | w # rest \<Rightarrow> (Some w, rest))"
    by (rule takeProvider_dropWhile)
next
  assume "waitingClients g = [] \<and> availableWorkers g = [] \<and> P1 \<noteq> P2"
  then have "waitingClients g = []" "availableWorkers g = []" "P1 \<noteq> P2" by simp_all
  then show "case run g [RegisterWorker P1 t1, RegisterWorker P2 t2] of (g2, out2) \<Rightarrow>
           out2 = [] \<and>
           (case step g2 (RequestSession R1 c1 s1) of (g3, out3) \<Rightarrow>
              out3 = [(P1, StartSession c1), (R1, SessionStarted s1)] \<and>
              sessions g3 s1 = Some \<lparr>clientSocket = R1, workerSocket = P1\<rparr> \<and>
              (case step g3 (RequestSession R2 c2 s2) of (g4, out4) \<Rightarrow>
                 out4 = [(P2, StartSession c2), (R2, SessionStarted s2)] \<and>
                 sessions g4 s2 = Some \<lparr>clientSocket = R2, workerSocket = P2\<rparr>))"
    by (rule fifo_scenario)
qed

theorem fifo_matching_witness:
  "waitingClients init = [] \<and> availableWorkers init = [] \<and> ''p1'' \<noteq> ''p2'' \<and>
   takeProvider [''p1'' \<mapsto> \<lparr>ctype = Worker, status = Some Busy, sessionId = Token ''s0''\<rparr>,
                 ''p3'' \<mapsto> \<lparr>ctype = Worker, status = Some Idle, sessionId = Null\<rparr>]
                [''p0'', ''p1'', ''p3'', ''p4''] = (Some ''p3'', [''p4'']) \<and>
   run init [RegisterWorker ''p1'' ''t1'', RegisterWorker ''p2'' ''t2'',
             RequestSession ''r1'' (Some ''a'') ''s1'',
             RequestSession ''r2'' (Some ''b'') ''s2''] =
     (\<lparr>connections =
         [''p1'' \<mapsto> \<lparr>ctype = Worker, status = Some Busy, sessionId = Token ''s1''\<rparr>,
          ''p2'' \<mapsto> \<lparr>ctype = Worker, status = Some Busy, sessionId = Token ''s2''\<rparr>,
          ''r1'' \<mapsto> \<lparr>ctype = Client, status = None, sessionId = Token ''s1''\<rparr>,
          ''r2'' \<mapsto> \<lparr>ctype = Client, status = None, sessionId = Token ''s2''\<rparr>],
       sessions = [''s1'' \<mapsto> \<lparr>clientSocket = ''r1'', workerSocket = ''p1''\<rparr>,
                   ''s2'' \<mapsto> \<lparr>clientSocket = ''r2'', workerSocket = ''p2''\<rparr>],
       waitingClients = [], availableWorkers = [], timers = []\<rparr>,
      [(''p1'', StartSession (Some ''a'')), (''r1'', SessionStarted ''s1''),
       (''p2'', StartSession (Some ''b'')), (''r2'', SessionStarted ''s2'')])"
  using fifo_matching [where g = init
      and conns = "[''p1'' \<mapsto> \<lparr>ctype = Worker, status = Some Busy, sessionId = Token ''s0''\<rparr>,
                    ''p3'' \<mapsto> \<lparr>ctype = Worker, status = Some Idle, sessionId = Null\<rparr>]"
      and pool = "[''p0'', ''p1'', ''p3'', ''p4'']"
      and ?P1.0 = "''p1''" and ?P2.0 = "''p2''" and ?t1.0 = "''t1''" and ?t2.0 = "''t2''"
      and ?R1.0 = "''r1''" and ?c1.0 = "Some ''a''" and ?s1.0 = "''s1''"
      and ?R2.0 = "''r2''" and ?c2.0 = "Some ''b''" and ?s2.0 = "''s2''"]
  by (simp add: handler_defs fun_upd_twist)

text \<open>
  C8 (bypass). When a worker registers while the queue of waiting clients is not empty,
  the head client is taken off the queue and paired with the worker at once: the session
  is in the table, both are told, the worker is busy, and the pool is exactly what it was
  (the worker is not added to it). When the queue is empty the worker is registered as
  idle and pushed on the tail of the pool, and nothing is emitted.
\<close>

theorem register_worker_bypass:
  "(waitingClients g = client # rest \<longrightarrow>
      (case step g (RegisterWorker w sid) of (g', out) \<Rightarrow>
         waitingClients g' = rest \<and> availableWorkers g' = availableWorkers g \<and>
         sessions g' = (sessions g)(sid \<mapsto> \<lparr>clientSocket = client, workerSocket = w\<rparr>) \<and>
         connections g' w = Some \<lparr>ctype = Worker, status = Some Busy, sessionId = Token sid\<rparr> \<and>
         out = [(w, StartSession None), (client, SessionStarted sid)]))
   \<and> (waitingClients g = [] \<longrightarrow>
        step g (RegisterWorker w sid) =
          (g\<lparr>connections := (connections g)(w \<mapsto> new_worker),
             availableWorkers := availableWorkers g @ [w]\<rparr>, []))"
proof (intro conjI impI)
  assume q: "waitingClients g = client # rest"
  let ?g1 = "g\<lparr>connections := (connections g)(w \<mapsto> new_worker), waitingClients := rest\<rparr>"
  have reg: "connections ?g1 w = Some new_worker" by simp
  have st: "step g (RegisterWorker w sid) = matchClientWithWorker ?g1 client w None sid"
    using q by (simp add: register_worker_def Let_def)
  show "case step g (RegisterWorker w sid) of (g', out) \<Rightarrow>
         waitingClients g' = rest \<and> availableWorkers g' = availableWorkers g \<and>
         sessions g' = (sessions g)(sid \<mapsto> \<lparr>clientSocket = client, workerSocket = w\<rparr>) \<and>
         connections g' w = Some \<lparr>ctype = Worker, status = Some Busy, sessionId = Token sid\<rparr> \<and>
         out = [(w, StartSession None), (client, SessionStarted sid)]"
    unfolding st using match_commit(1-3)[OF reg, where c = client and cfg = None and sid = sid]
    by (simp add: case_prod_beta new_worker_def)
next
  assume "waitingClients g = []"
  then show "step g (RegisterWorker w sid) =
          (g\<lparr>connections := (connections g)(w \<mapsto> new_worker),
             availableWorkers := availableWorkers g @ [w]\<rparr>, [])"
    by (rule register_worker_offer)
qed

theorem register_worker_bypass_witness:
  "waitingClients (fst (step init (RequestSession ''r1'' (Some ''url'') ''t0''))) = [''r1''] \<and>
   step (fst (step init (RequestSession ''r1'' (Some ''url'') ''t0''))) (RegisterWorker ''p1'' ''s1'') =
     (\<lparr>connections = [''p1'' \<mapsto> \<lparr>ctype = Worker, status = Some Busy, sessionId = Token ''s1''\<rparr>,
                      ''r1'' \<mapsto> \<lparr>ctype = Client, status = None, sessionId = Token ''s1''\<rparr>],
       sessions = [''s1'' \<mapsto> \<lparr>clientSocket = ''r1'', workerSocket = ''p1''\<rparr>],
       waitingClients = [], availableWorkers = [], timers = []\<rparr>,
      [(''p1'', StartSession None), (''r1'', SessionStarted ''s1'')]) \<and>
   waitingClients init = [] \<and>
   step init (RegisterWorker ''p1'' ''s1'') =
     (\<lparr>connections = [''p1'' \<mapsto> \<lparr>ctype = Worker, status = Some Idle, sessionId = Undefined\<rparr>],
       sessions = Map.empty, waitingClients = [], availableWorkers = [''p1''], timers = []\<rparr>, [])"
  using register_worker_bypass [of "fst (step init (RequestSession ''r1'' (Some ''url'') ''t0''))"
      "''r1''" "[]" "''p1''" "''s1''"]
    register_worker_bypass [of init "''r1''" "[]" "''p1''" "''s1''"]
  by (simp add: handler_defs fun_upd_twist)

text \<open>
  C9 (orphaned relay). A \<open>signal\<close> or \<open>browser-event\<close> from a socket that has no registry
  entry, or whose \<open>sessionId\<close> is unset, or whose \<open>sessionId\<close> does not resolve in the
  session table, emits nothing (to the sender or to anybody else) and leaves the whole
  state as it was.
\<close>

theorem relay_orphan_dropped:
  assumes "connections g socket = None \<or>
     (\<exists>conn. connections g socket = Some conn \<and>
        (session_token (sessionId conn) = None \<or>
         (\<exists>sid. session_token (sessionId conn) = Some sid \<and> sessions g sid = None)))"
  shows "step g (Signal socket data) = (g, []) \<and> step g (BrowserEvent socket data) = (g, [])"
  using assms by (auto simp: signal_def browser_event_def)

theorem relay_orphan_dropped_witness:
  "connections (fst (run init [RegisterWorker ''p1'' ''t0'', RequestSession ''r1'' None ''s1'',
                               Disconnect ''p1''])) ''r1'' =
     Some \<lparr>ctype = Client, status = None, sessionId = Token ''s1''\<rparr> \<and>
   sessions (fst (run init [RegisterWorker ''p1'' ''t0'', RequestSession ''r1'' None ''s1'',
                            Disconnect ''p1''])) ''s1'' = None \<and>
   snd (step (fst (run init [RegisterWorker ''p1'' ''t0'', RequestSession ''r1'' None ''s1'',
                             Disconnect ''p1''])) (Signal ''r1'' ''offer'')) = [] \<and>
   snd (step (fst (run init [RegisterWorker ''p1'' ''t0'', RequestSession ''r1'' None ''s1'',
                             Disconnect ''p1''])) (BrowserEvent ''r1'' ''click'')) = [] \<and>
   connections init ''r9'' = None \<and>
   step init (Signal ''r9'' ''offer'') = (init, []) \<and>
   step init (BrowserEvent ''r9'' ''click'') = (init, [])"
  using relay_orphan_dropped [of "fst (run init [RegisterWorker ''p1'' ''t0'',
        RequestSession ''r1'' None ''s1'', Disconnect ''p1''])" "''r1''" "''offer''"]
    relay_orphan_dropped [of "fst (run init [RegisterWorker ''p1'' ''t0'',
        RequestSession ''r1'' None ''s1'', Disconnect ''p1''])" "''r1''" "''click''"]
    relay_orphan_dropped [of init "''r9''" "''offer''"]
    relay_orphan_dropped [of init "''r9''" "''click''"]
  by (simp add: handler_defs)



text \<open>
  C3 (explicit stop). The claim asks that a \<open>stop-session\<close> from the client of a live
  session delete the session and tell the worker to stop. With \<open>r1\<close> paired with \<open>p1\<close>
  in session \<open>s1\<close>, the \<open>stop-session\<close> that the frontend sends changes nothing and
  emits nothing: the session stays in the table.
\<close>

theorem stop_session_ignored:
  "sessions (fst (run init [RegisterWorker ''p1'' ''t0'', RequestSession ''r1'' (Some ''url'') ''s1''])) ''s1''
     = Some \<lparr>clientSocket = ''r1'', workerSocket = ''p1''\<rparr> \<and>
   step (fst (run init [RegisterWorker ''p1'' ''t0'', RequestSession ''r1'' (Some ''url'') ''s1'']))
        (StopSessionEv ''r1'')
     = (fst (run init [RegisterWorker ''p1'' ''t0'', RequestSession ''r1'' (Some ''url'') ''s1'']), [])"
  by (simp add: handler_defs)

text \<open>
  C4 (idempotent registration). The claim asks that registering a worker again leave its
  entry, the pool and the queue alone. Worker \<open>p1\<close> is busy in session \<open>s1\<close>; when it
  sends \<open>register-worker\<close> a second time its entry is replaced by a fresh idle one
  without \<open>sessionId\<close> and it is pushed on the pool, while \<open>s1\<close> is still in the table.
\<close>

theorem register_worker_not_idempotent:
  "fst (run init [RegisterWorker ''p1'' ''t0'', RequestSession ''r1'' (Some ''url'') ''s1'']) =
     \<lparr>connections = [''p1'' \<mapsto> \<lparr>ctype = Worker, status = Some Busy, sessionId = Token ''s1''\<rparr>,
                     ''r1'' \<mapsto> \<lparr>ctype = Client, status = None, sessionId = Token ''s1''\<rparr>],
      sessions = [''s1'' \<mapsto> \<lparr>clientSocket = ''r1'', workerSocket = ''p1''\<rparr>],
      waitingClients = [], availableWorkers = [], timers = []\<rparr> \<and>
   fst (run init [RegisterWorker ''p1'' ''t0'', RequestSession ''r1'' (Some ''url'') ''s1'',
                  RegisterWorker ''p1'' ''t1'']) =
     \<lparr>connections = [''p1'' \<mapsto> \<lparr>ctype = Worker, status = Some Idle, sessionId = Undefined\<rparr>,
                     ''r1'' \<mapsto> \<lparr>ctype = Client, status = None, sessionId = Token ''s1''\<rparr>],
      sessions = [''s1'' \<mapsto> \<lparr>clientSocket = ''r1'', workerSocket = ''p1''\<rparr>],
      waitingClients = [], availableWorkers = [''p1''], timers = []\<rparr>"
  by (simp add: handler_defs fun_upd_twist)

text \<open>
  C10 (grace window). The claim asks that a worker stay busy, and unpaired, from its
  client's disconnect until the reclaim timer fires. Client \<open>r1\<close> of worker \<open>p1\<close>
  disconnects; before the timer fires (it is still pending in the final state) \<open>p1\<close>
  sends \<open>register-worker\<close> again, which makes it idle and puts it in the pool, and the
  next request pairs it with \<open>r2\<close>.
\<close>

theorem grace_window_reregistration:
  "run init [RegisterWorker ''p1'' ''t0'', RequestSession ''r1'' (Some ''a'') ''s1'',
             Disconnect ''r1'', RegisterWorker ''p1'' ''t1'', RequestSession ''r2'' (Some ''b'') ''s2''] =
     (\<lparr>connections = [''p1'' \<mapsto> \<lparr>ctype = Worker, status = Some Busy, sessionId = Token ''s2''\<rparr>,
                      ''r2'' \<mapsto> \<lparr>ctype = Client, status = None, sessionId = Token ''s2''\<rparr>],
       sessions = [''s2'' \<mapsto> \<lparr>clientSocket = ''r2'', workerSocket = ''p1''\<rparr>],
       waitingClients = [], availableWorkers = [], timers = [''p1'']\<rparr>,
      [(''p1'', StartSession (Some ''a'')), (''r1'', SessionStarted ''s1''),
       (''p1'', StopSession),
       (''p1'', StartSession (Some ''b'')), (''r2'', SessionStarted ''s2'')])"
  by (simp add: handler_defs fun_upd_twist)


text \<open>
  C2 (binding invariant), as amended. In every state the gateway reaches from the empty
  one by a sequence of events whose tokens are distinct: when the \<open>sessionId\<close> of a
  registered connection is a token that names an entry of the session table, the
  connection is the client socket or the worker socket of that entry. (The \<open>sessionId\<close>
  may also name a session that is deleted already, see the counterexample.)
\<close>

theorem session_binding:
  assumes "distinct (tokens evs)"
  shows "\<forall>c conn t s. connections (fst (run init evs)) c = Some conn \<and> sessionId conn = Token t \<and>
           sessions (fst (run init evs)) t = Some s \<longrightarrow> c = clientSocket s \<or> c = workerSocket s"
proof -
  have "gw_inv {} init" by (simp add: bound_ok_def init_def)
  from inv_run[OF this assms] have "gw_inv ({} \<union> set (tokens evs)) (fst (run init evs))" by simp
  then show ?thesis unfolding bound_ok_def by blast
qed

theorem session_binding_witness:
  "distinct (tokens [RegisterWorker ''p1'' ''t0'', RequestSession ''r1'' (Some ''url'') ''s1'']) \<and>
   connections (fst (run init [RegisterWorker ''p1'' ''t0'',
                               RequestSession ''r1'' (Some ''url'') ''s1''])) ''r1'' =
     Some \<lparr>ctype = Client, status = None, sessionId = Token ''s1''\<rparr> \<and>
   sessions (fst (run init [RegisterWorker ''p1'' ''t0'',
                            RequestSession ''r1'' (Some ''url'') ''s1''])) ''s1'' =
     Some \<lparr>clientSocket = ''r1'', workerSocket = ''p1''\<rparr> \<and>
   (''r1'' = clientSocket \<lparr>clientSocket = ''r1'', workerSocket = ''p1''\<rparr> \<or>
    ''r1'' = workerSocket \<lparr>clientSocket = ''r1'', workerSocket = ''p1''\<rparr>)"
proof -
  have d: "distinct (tokens [RegisterWorker ''p1'' ''t0'',
                             RequestSession ''r1'' (Some ''url'') ''s1''])"
    by (simp add: tokens_def)
  have c: "connections (fst (run init [RegisterWorker ''p1'' ''t0'',
                               RequestSession ''r1'' (Some ''url'') ''s1''])) ''r1'' =
     Some \<lparr>ctype = Client, status = None, sessionId = Token ''s1''\<rparr>"
    by (simp add: handler_defs)
  have s: "sessions (fst (run init [RegisterWorker ''p1'' ''t0'',
                            RequestSession ''r1'' (Some ''url'') ''s1''])) ''s1'' =
     Some \<lparr>clientSocket = ''r1'', workerSocket = ''p1''\<rparr>"
    by (simp add: handler_defs)
  have "''r1'' = clientSocket \<lparr>clientSocket = ''r1'', workerSocket = ''p1''\<rparr> \<or>
        ''r1'' = workerSocket \<lparr>clientSocket = ''r1'', workerSocket = ''p1''\<rparr>"
    using session_binding [OF d] c s
    by (metis connection.select_convs(3))
  then show ?thesis using d c s by blast
qed

text \<open>
  C2, the claim as stated fails: after worker \<open>p1\<close> of session \<open>s1\<close> disconnects, the
  client \<open>r1\<close> is still registered with \<open>sessionId = s1\<close>, and the session table is empty.
\<close>

theorem stale_session_id:
  "fst (run init [RegisterWorker ''p1'' ''t0'', RequestSession ''r1'' (Some ''url'') ''s1'',
                  Disconnect ''p1'']) =
     \<lparr>connections = [''r1'' \<mapsto> \<lparr>ctype = Client, status = None, sessionId = Token ''s1''\<rparr>],
      sessions = Map.empty, waitingClients = [], availableWorkers = [], timers = []\<rparr>"
  by (simp add: handler_defs fun_upd_twist)

text \<open>
  C5 (session creation), as amended. Whenever an event puts a new entry \<open>sid\<close> in the
  session table, the entry has one client socket and one worker socket, both registered
  afterwards with \<open>sessionId = sid\<close>, the worker busy; and the event is either a
  \<open>request-session\<close> from that client drawing \<open>sid\<close>, the worker having been in the pool
  and registered with status \<open>idle\<close>, or a \<open>register-worker\<close> from that worker drawing
  \<open>sid\<close>, the client having been at the head of the queue. Nothing is said about the
  client being unbound or different from the worker: the gateway does not check it.
\<close>

theorem session_creation:
  assumes "step g ev = (g', out)" "sessions g' sid = Some s" "sessions g sid \<noteq> Some s"
  shows "(\<exists>wc. connections g' (workerSocket s) = Some wc \<and> status wc = Some Busy \<and>
               sessionId wc = Token sid) \<and>
         (\<exists>cc. connections g' (clientSocket s) = Some cc \<and> sessionId cc = Token sid) \<and>
         ((\<exists>cfg. ev = RequestSession (clientSocket s) cfg sid \<and>
                 workerSocket s \<in> set (availableWorkers g) \<and>
                 (\<exists>wc. connections g (workerSocket s) = Some wc \<and> status wc = Some Idle)) \<or>
          (\<exists>rest. ev = RegisterWorker (workerSocket s) sid \<and>
                  waitingClients g = clientSocket s # rest))"
proof (cases ev)
  case (RegisterWorker w t)
  then have g': "g' = fst (register_worker g w t)" using assms(1) by simp
  from register_worker_new_session[OF assms(2)[unfolded g'] assms(3)] show ?thesis
    unfolding g' RegisterWorker by auto
next
  case (RegisterClient c)
  then have "sessions g' = sessions g" using assms(1) sessions_register_client[of g c] by auto
  with assms show ?thesis by simp
next
  case (RequestSession r cfg t)
  then have g': "g' = fst (request_session g r cfg t)" using assms(1) by simp
  from request_session_new_session[OF assms(2)[unfolded g'] assms(3)] show ?thesis
    unfolding g' RequestSession by auto
next
  case (Signal c d)
  then have "sessions g' = sessions g" using assms(1) sessions_relay(1)[of g c d] by auto
  with assms show ?thesis by simp
next
  case (BrowserEvent c d)
  then have "sessions g' = sessions g" using assms(1) sessions_relay(2)[of g c d] by auto
  with assms show ?thesis by simp
next
  case (StopSessionEv c)
  then have "sessions g' = sessions g" using assms(1) by auto
  with assms show ?thesis by simp
next
  case (Disconnect c)
  then have "g' = fst (disconnect g c)" using assms(1) by simp
  then have "sessions g sid = Some s" using assms(2) sessions_disconnect by blast
  with assms show ?thesis by simp
next
  case TimerFire
  then have "sessions g' = sessions g" using assms(1) sessions_reclaim[of g] by auto
  with assms show ?thesis by simp
qed

theorem session_creation_witness:
  "step (fst (step init (RegisterWorker ''p1'' ''t0''))) (RequestSession ''r1'' (Some ''url'') ''s1'') =
     (\<lparr>connections = [''p1'' \<mapsto> \<lparr>ctype = Worker, status = Some Busy, sessionId = Token ''s1''\<rparr>,
                      ''r1'' \<mapsto> \<lparr>ctype = Client, status = None, sessionId = Token ''s1''\<rparr>],
       sessions = [''s1'' \<mapsto> \<lparr>clientSocket = ''r1'', workerSocket = ''p1''\<rparr>],
       waitingClients = [], availableWorkers = [], timers = []\<rparr>,
      [(''p1'', StartSession (Some ''url'')), (''r1'', SessionStarted ''s1'')]) \<and>
   sessions (fst (step init (RegisterWorker ''p1'' ''t0''))) ''s1'' = None \<and>
   ''p1'' \<in> set (availableWorkers (fst (step init (RegisterWorker ''p1'' ''t0'')))) \<and>
   (\<exists>wc. connections (fst (step init (RegisterWorker ''p1'' ''t0''))) ''p1'' = Some wc \<and>
         status wc = Some Idle)"
  using session_creation [of "fst (step init (RegisterWorker ''p1'' ''t0''))"
      "RequestSession ''r1'' (Some ''url'') ''s1''"
      "\<lparr>connections = [''p1'' \<mapsto> \<lparr>ctype = Worker, status = Some Busy, sessionId = Token ''s1''\<rparr>,
                      ''r1'' \<mapsto> \<lparr>ctype = Client, status = None, sessionId = Token ''s1''\<rparr>],
       sessions = [''s1'' \<mapsto> \<lparr>clientSocket = ''r1'', workerSocket = ''p1''\<rparr>],
       waitingClients = [], availableWorkers = [], timers = []\<rparr>"
      "[(''p1'', StartSession (Some ''url'')), (''r1'', SessionStarted ''s1'')]"
      "''s1''" "\<lparr>clientSocket = ''r1'', workerSocket = ''p1''\<rparr>"]
  by (simp add: handler_defs fun_upd_twist)

text \<open>
  C5, the claim as stated fails: client \<open>r1\<close>, bound to session \<open>s1\<close> with worker \<open>p1\<close>,
  requests again and is paired with \<open>p2\<close> in session \<open>s2\<close>; both entries are in the
  session table.
\<close>

theorem requester_bound_twice:
  "run init [RegisterWorker ''p1'' ''t1'', RegisterWorker ''p2'' ''t2'',
             RequestSession ''r1'' (Some ''a'') ''s1'', RequestSession ''r1'' (Some ''b'') ''s2''] =
     (\<lparr>connections = [''p1'' \<mapsto> \<lparr>ctype = Worker, status = Some Busy, sessionId = Token ''s1''\<rparr>,
                      ''p2'' \<mapsto> \<lparr>ctype = Worker, status = Some Busy, sessionId = Token ''s2''\<rparr>,
                      ''r1'' \<mapsto> \<lparr>ctype = Client, status = None, sessionId = Token ''s2''\<rparr>],
       sessions = [''s1'' \<mapsto> \<lparr>clientSocket = ''r1'', workerSocket = ''p1''\<rparr>,
                   ''s2'' \<mapsto> \<lparr>clientSocket = ''r1'', workerSocket = ''p2''\<rparr>],
       waitingClients = [], availableWorkers = [], timers = []\<rparr>,
      [(''p1'', StartSession (Some ''a'')), (''r1'', SessionStarted ''s1''),
       (''p2'', StartSession (Some ''b'')), (''r1'', SessionStarted ''s2'')])"
  by (simp add: handler_defs fun_upd_twist)

end
